theory Spec2Isabelle
  imports Main "HOL-Library.Word"
begin

section \<open>Python data used by connector.py\<close>

text \<open>
  A Python \<open>str\<close> is a sequence of Unicode code points (0 .. 0x10FFFF, lone surrogates
  included); a \<open>bytes\<close> object is a sequence of 8-bit values.  String literals of the
  script are written with \<open>lit\<close>.
\<close>

type_synonym py_str = "nat list"
type_synonym byte = "8 word"

definition lit :: "string \<Rightarrow> py_str" where
  "lit s = map of_char s"

definition to_byte :: "nat \<Rightarrow> byte" where
  "to_byte n = of_nat n"

definition valid_str :: "py_str \<Rightarrow> bool" where
  "valid_str s = list_all (\<lambda>c. c < 0x110000) s"

definition is_surrogate :: "nat \<Rightarrow> bool" where
  "is_surrogate c = (0xD800 \<le> c \<and> c \<le> 0xDFFF)"

datatype py_error =
    UnicodeEncodeError
  | UnicodeDecodeError
  | JSONDecodeError
  | KeyError py_str
  | TypeError
  | BadCredentialsException
  | RateLimitExceededException
  | GithubException
  | ConnectionError
  | OtherException py_str

section \<open>urllib.parse.quote\<close>

text \<open>
  Line 10 calls \<open>urllib.parse.quote(query)\<close>.  The function belongs to the Python
  standard library; the definitions follow \<open>quote\<close>, \<open>quote_from_bytes\<close> and
  \<open>_Quoter\<close> of CPython's \<open>urllib/parse.py\<close>, and the UTF-8 codec that
  \<open>str.encode\<close> uses.  Strings of 200000 bytes and more are quoted in chunks there,
  with the same result.
\<close>

text \<open>
  \<open>str.encode('utf-8', 'strict')\<close>: one to four bytes per code point; a surrogate
  raises UnicodeEncodeError.  A number that is no code point at all (above 0x10FFFF)
  cannot occur in a Python \<open>str\<close>; the model rejects it with the same error.
\<close>

definition utf8_encode_char :: "nat \<Rightarrow> py_error + byte list" where
  "utf8_encode_char c =
     (if c < 0x80 then Inr [to_byte c]
      else if c < 0x800 then Inr [to_byte (0xC0 + c div 64), to_byte (0x80 + c mod 64)]
      else if c < 0x10000 then
        (if is_surrogate c then Inl UnicodeEncodeError
         else Inr [to_byte (0xE0 + c div 4096), to_byte (0x80 + c div 64 mod 64),
                   to_byte (0x80 + c mod 64)])
      else if c < 0x110000 then
        Inr [to_byte (0xF0 + c div 262144), to_byte (0x80 + c div 4096 mod 64),
             to_byte (0x80 + c div 64 mod 64), to_byte (0x80 + c mod 64)]
      else Inl UnicodeEncodeError)"

fun str_encode :: "py_str \<Rightarrow> py_error + byte list" where
  "str_encode [] = Inr []"
| "str_encode (c # cs) =
     (case utf8_encode_char c of
        Inl e \<Rightarrow> Inl e
      | Inr bs \<Rightarrow> (case str_encode cs of Inl e \<Rightarrow> Inl e | Inr rest \<Rightarrow> Inr (bs @ rest)))"

text \<open>\<open>_ALWAYS_SAFE\<close>, and the default \<open>safe='/'\<close> of \<open>quote\<close>.\<close>

definition ALWAYS_SAFE :: "byte list" where
  "ALWAYS_SAFE = map of_char
     ''ABCDEFGHIJKLMNOPQRSTUVWXYZabcdefghijklmnopqrstuvwxyz0123456789_.-~''"

definition default_safe :: "byte list" where
  "default_safe = map of_char ''/''"

text \<open>\<open>'%{:02X}'.format(b)\<close>: a percent sign and two upper-case hexadecimal digits.\<close>

definition hex_upper :: "nat \<Rightarrow> nat" where
  "hex_upper d = (if d < 10 then 48 + d else 55 + d)"

text \<open>\<open>_Quoter.__missing__\<close>: what one byte becomes.\<close>

definition quoter :: "byte list \<Rightarrow> byte \<Rightarrow> py_str" where
  "quoter safe b =
     (if b \<in> set (ALWAYS_SAFE @ safe) then [unat b]
      else [37, hex_upper (unat b div 16), hex_upper (unat b mod 16)])"

text \<open>
  \<open>quote_from_bytes\<close>: empty input gives the empty string, input made of safe bytes
  only is returned decoded (ASCII, so byte by byte), anything else goes through the
  quoter byte by byte.
\<close>

definition quote_from_bytes :: "byte list \<Rightarrow> byte list \<Rightarrow> py_str" where
  "quote_from_bytes bs safe =
     (if bs = [] then []
      else if list_all (\<lambda>b. b \<in> set (ALWAYS_SAFE @ safe)) bs then map unat bs
      else concat (map (quoter safe) bs))"

text \<open>\<open>quote(string)\<close> with the default arguments, as the script calls it.\<close>

definition quote :: "py_str \<Rightarrow> py_error + py_str" where
  "quote string =
     (if string = [] then Inr string
      else (case str_encode string of
              Inl e \<Rightarrow> Inl e
            | Inr bs \<Rightarrow> Inr (quote_from_bytes bs default_safe)))"


section \<open>Percent-decoding\<close>

text \<open>
  Modelled from the spec: the script never decodes, and the decoder below is the inverse
  that the spec's round-trip equation \<open>decode(encode(x)) == x\<close> speaks of.  It undoes
  each \<open>%XX\<close> escape, takes every other ASCII character as its byte, and reads the
  bytes as strict UTF-8.  \<open>None\<close> means that the text is no percent-encoding of any
  string.
\<close>

definition unhex :: "nat \<Rightarrow> nat option" where
  "unhex c =
     (if 48 \<le> c \<and> c \<le> 57 then Some (c - 48)
      else if 65 \<le> c \<and> c \<le> 70 then Some (c - 55)
      else if 97 \<le> c \<and> c \<le> 102 then Some (c - 87)
      else None)"

fun percent_decode :: "py_str \<Rightarrow> byte list option" where
  "percent_decode [] = Some []"
| "percent_decode (c # cs) =
     (if c = 37 then
        (case cs of
           h # l # rest \<Rightarrow>
             (case (unhex h, unhex l) of
                (Some a, Some b) \<Rightarrow> map_option ((#) (of_nat (16 * a + b))) (percent_decode rest)
              | _ \<Rightarrow> None)
         | _ \<Rightarrow> None)
      else if c < 128 then map_option ((#) (of_nat c)) (percent_decode cs)
      else None)"

definition is_cont :: "byte \<Rightarrow> bool" where
  "is_cont b = (0x80 \<le> unat b \<and> unat b < 0xC0)"

text \<open>The first code point of a UTF-8 byte sequence and the bytes after it.\<close>

definition utf8_next :: "byte list \<Rightarrow> (nat \<times> byte list) option" where
  "utf8_next bs =
     (case bs of
        [] \<Rightarrow> None
      | b0 # r0 \<Rightarrow>
          if unat b0 < 0x80 then Some (unat b0, r0)
          else if unat b0 < 0xC0 then None
          else if unat b0 < 0xE0 then
            (case r0 of
               b1 # rest \<Rightarrow>
                 (let c = (unat b0 - 0xC0) * 64 + (unat b1 - 0x80)
                  in if is_cont b1 \<and> 0x80 \<le> c then Some (c, rest) else None)
             | _ \<Rightarrow> None)
          else if unat b0 < 0xF0 then
            (case r0 of
               b1 # b2 # rest \<Rightarrow>
                 (let c = (unat b0 - 0xE0) * 4096 + (unat b1 - 0x80) * 64 + (unat b2 - 0x80)
                  in if is_cont b1 \<and> is_cont b2 \<and> 0x800 \<le> c \<and> \<not> is_surrogate c
                     then Some (c, rest) else None)
             | _ \<Rightarrow> None)
          else if unat b0 < 0xF8 then
            (case r0 of
               b1 # b2 # b3 # rest \<Rightarrow>
                 (let c = (unat b0 - 0xF0) * 262144 + (unat b1 - 0x80) * 4096
                          + (unat b2 - 0x80) * 64 + (unat b3 - 0x80)
                  in if is_cont b1 \<and> is_cont b2 \<and> is_cont b3 \<and> 0x10000 \<le> c \<and> c < 0x110000
                     then Some (c, rest) else None)
             | _ \<Rightarrow> None)
          else None)"

function utf8_decode :: "byte list \<Rightarrow> py_str option" where
  "utf8_decode bs =
     (if bs = [] then Some []
      else (case utf8_next bs of
              None \<Rightarrow> None
            | Some (c, rest) \<Rightarrow> map_option ((#) c) (utf8_decode rest)))"
  by pat_completeness auto
termination
  by (relation "measure length")
     (auto simp: utf8_next_def Let_def split: list.splits if_splits)

declare utf8_decode.simps [simp del]

text \<open>
  Modelled from the spec: \<open>decode\<close>, percent-decoding followed by UTF-8 decoding; the
  script has no such function.
\<close>

definition decode :: "py_str \<Rightarrow> py_str option" where
  "decode s = (case percent_decode s of None \<Rightarrow> None | Some bs \<Rightarrow> utf8_decode bs)"

text \<open>
  The character classes of RFC 3986 that the docstring of \<open>quote\<close> lists: the reserved
  characters (gen-delims and sub-delims; 39 is the apostrophe) and the unreserved ones.
\<close>

definition is_alnum :: "nat \<Rightarrow> bool" where
  "is_alnum c = (48 \<le> c \<and> c \<le> 57 \<or> 65 \<le> c \<and> c \<le> 90 \<or> 97 \<le> c \<and> c \<le> 122)"

definition is_unreserved :: "nat \<Rightarrow> bool" where
  "is_unreserved c = (is_alnum c \<or> c = 45 \<or> c = 46 \<or> c = 95 \<or> c = 126)"

definition is_reserved :: "nat \<Rightarrow> bool" where
  "is_reserved c = (c \<in> set (lit '':/?#[]@!$&()*+,;='' @ [39]))"

text \<open>The code points that \<open>quote\<close> with its default \<open>safe='/'\<close> leaves alone.\<close>

definition is_safe :: "byte \<Rightarrow> bool" where
  "is_safe b = (b \<in> set (ALWAYS_SAFE @ default_safe))"

definition safe_char :: "nat \<Rightarrow> bool" where
  "safe_char c = (is_unreserved c \<or> c = 47)"

section \<open>Values produced by json.loads\<close>

text \<open>
  The Python objects that a JSON text parses to.  A \<open>float\<close> is carried as its
  \<open>repr\<close> text: the script only ever prints the value.  A \<open>dict\<close> is the list of its
  items in insertion order, with distinct keys.
\<close>

datatype py_value =
    PyNone
  | PyBool bool
  | PyInt int
  | PyFloat py_str
  | PyStr py_str
  | PyList "py_value list"
  | PyDict "(py_str \<times> py_value) list"

text \<open>\<open>obj[key]\<close> with a string key: only a dict can be subscripted by a string.\<close>

fun getitem :: "py_value \<Rightarrow> py_str \<Rightarrow> py_error + py_value" where
  "getitem (PyDict items) key =
     (case map_of items key of None \<Rightarrow> Inl (KeyError key) | Some v \<Rightarrow> Inr v)"
| "getitem _ key = Inl TypeError"


subsection \<open>str() and repr() of such values\<close>

definition hex_lower :: "nat \<Rightarrow> nat" where
  "hex_lower d = (if d < 10 then 48 + d else 87 + d)"

fun hex_fixed :: "nat \<Rightarrow> nat \<Rightarrow> py_str" where
  "hex_fixed 0 n = []"
| "hex_fixed (Suc w) n = hex_fixed w (n div 16) @ [hex_lower (n mod 16)]"

text \<open>
  \<open>repr\<close> of a string, one character at a time.  92 is the backslash, 39 and 34 are
  the two quotes; \<open>[92, 116]\<close>, \<open>[92, 110]\<close>, \<open>[92, 114]\<close> are the escapes of tab,
  newline and carriage return, and 120, 117 and 85 the letters x, u and U.  Whether a character beyond ASCII is printable is a table of the Unicode
  database, taken as the parameter \<open>printable\<close>.
\<close>

definition repr_char :: "(nat \<Rightarrow> bool) \<Rightarrow> nat \<Rightarrow> nat \<Rightarrow> py_str" where
  "repr_char printable quote_ch ch =
     (if ch = quote_ch \<or> ch = 92 then [92, ch]
      else if ch = 9 then [92, 116]
      else if ch = 10 then [92, 110]
      else if ch = 13 then [92, 114]
      else if ch < 32 \<or> ch = 0x7F then [92, 120] @ hex_fixed 2 ch
      else if ch < 0x7F then [ch]
      else if \<not> printable ch then
        (if ch \<le> 0xFF then [92, 120] @ hex_fixed 2 ch
         else if ch \<le> 0xFFFF then [92, 117] @ hex_fixed 4 ch
         else [92, 85] @ hex_fixed 8 ch)
      else [ch])"

definition str_repr :: "(nat \<Rightarrow> bool) \<Rightarrow> py_str \<Rightarrow> py_str" where
  "str_repr printable s =
     (let quote_ch = (if 39 \<in> set s \<and> 34 \<notin> set s then 34 else 39)
      in [quote_ch] @ concat (map (repr_char printable quote_ch) s) @ [quote_ch])"

fun nat_repr :: "nat \<Rightarrow> py_str" where
  "nat_repr n = (if n < 10 then [48 + n] else nat_repr (n div 10) @ [48 + n mod 10])"

declare nat_repr.simps [simp del]

definition int_repr :: "int \<Rightarrow> py_str" where
  "int_repr i = (if i < 0 then 45 # nat_repr (nat (- i)) else nat_repr (nat i))"

fun join :: "py_str \<Rightarrow> py_str list \<Rightarrow> py_str" where
  "join sep [] = []"
| "join sep [x] = x"
| "join sep (x # y # ys) = x @ sep @ join sep (y # ys)"

fun py_repr :: "(nat \<Rightarrow> bool) \<Rightarrow> py_value \<Rightarrow> py_str" where
  "py_repr printable PyNone = lit ''None''"
| "py_repr printable (PyBool b) = (if b then lit ''True'' else lit ''False'')"
| "py_repr printable (PyInt i) = int_repr i"
| "py_repr printable (PyFloat r) = r"
| "py_repr printable (PyStr s) = str_repr printable s"
| "py_repr printable (PyList xs) =
     lit ''['' @ join (lit '', '') (map (py_repr printable) xs) @ lit '']''"
| "py_repr printable (PyDict items) =
     lit ''{'' @ join (lit '', '')
        (map (\<lambda>(k, v). str_repr printable k @ lit '': '' @ py_repr printable v) items)
      @ lit ''}''"

text \<open>
  A replacement field \<open>{x}\<close> of an f-string is \<open>format(x, '')\<close>, which is \<open>str(x)\<close>
  for each of these types: the string itself, and \<open>repr\<close> for everything else.
\<close>

definition format_value :: "(nat \<Rightarrow> bool) \<Rightarrow> py_value \<Rightarrow> py_str" where
  "format_value printable v = (case v of PyStr s \<Rightarrow> s | _ \<Rightarrow> py_repr printable v)"

section \<open>The collaborators of the script\<close>

text \<open>
  The PyGithub client, the JSON parser and the Unicode tables are not part of the
  script.  A run is a function of what they do: \<open>search_code\<close> returns a lazily
  fetched sequence or raises, \<open>json_loads\<close> returns a value or raises.  The sequence
  is the records it yields and, if fetching a later page fails, the error raised when
  the loop asks for the next record.
\<close>

datatype client = Github py_str

record request =
  arg_query :: py_str
  arg_sort :: py_str
  arg_order :: py_str
  arg_highlight :: bool
  arg_qualifiers :: "py_str \<rightharpoonup> py_str"

record repository =
  full_name :: py_str

record content_file =
  repository :: repository
  path :: py_str
  html_url :: py_str
  decoded_content :: "byte list"

datatype paginated_list = PaginatedList "content_file list" "py_error option"

record env =
  search_code :: "client \<Rightarrow> request \<Rightarrow> py_error + paginated_list"
  json_loads :: "byte list \<Rightarrow> py_error + py_value"
  isprintable :: "nat \<Rightarrow> bool"

text \<open>
  What a run leaves behind: the text written to standard output, the calls made to
  \<open>search_code\<close>, and how the interpreter stopped.
\<close>

datatype outcome = Finished | Uncaught py_error

record run =
  stdout :: py_str
  calls :: "(client \<times> request) list"
  ending :: outcome

fun exit_code :: "outcome \<Rightarrow> nat" where
  "exit_code Finished = 0"
| "exit_code (Uncaught e) = 1"

section \<open>connector.py\<close>

text \<open>
  Line 6 builds the client from the empty token.  As the spec has it, the constructor
  validates nothing and does not fail; a bad token shows when a request is made.
\<close>

definition g :: client where
  "g = Github (lit '''')"

definition query :: py_str where
  "query = lit ''angular''"

definition qualifiers :: "py_str \<rightharpoonup> py_str" where
  "qualifiers = [lit ''filename'' \<mapsto> lit ''package.json'',
                 lit ''repo'' \<mapsto> lit ''gothinkster/angularjs-realworld-example-app'']"

text \<open>The arguments of the call on line 18, for a given \<open>query\<close> argument.\<close>

definition search_request :: "py_str \<Rightarrow> request" where
  "search_request q =
     \<lparr>arg_query = q, arg_sort = lit ''indexed'', arg_order = lit ''asc'',
      arg_highlight = True, arg_qualifiers = qualifiers\<rparr>"

text \<open>
  \<open>print(s)\<close> appends the string and a newline to standard output, which is taken
  to accept every string.
\<close>

definition print :: "py_str \<Rightarrow> py_str \<Rightarrow> py_str" where
  "print s out = out @ s @ [10]"

text \<open>Line 22: parse the content, then two subscripts; each of the three may raise.\<close>

definition angular_js_version :: "env \<Rightarrow> content_file \<Rightarrow> py_error + py_value" where
  "angular_js_version E result =
     (case json_loads E (decoded_content result) of
        Inl e \<Rightarrow> Inl e
      | Inr obj \<Rightarrow>
          (case getitem obj (lit ''dependencies'') of
             Inl e \<Rightarrow> Inl e
           | Inr deps \<Rightarrow> getitem deps (lit ''angular'')))"

text \<open>Lines 22 to 27: one pass of the loop body, from standard output to standard output.\<close>

definition loop_body :: "env \<Rightarrow> content_file \<Rightarrow> py_str \<Rightarrow> py_error + py_str" where
  "loop_body E result out =
     (case angular_js_version E result of
        Inl e \<Rightarrow> Inl e
      | Inr v \<Rightarrow>
          (let out1 = print (lit ''Repository: '' @ full_name (repository result)) out;
               out2 = print (lit ''File path: '' @ path result) out1;
               out3 = print (lit ''URL: '' @ html_url result) out2;
               out4 = print (lit ''Angular JS: '' @ format_value (isprintable E) v) out3
           in Inr out4))"

text \<open>
  Line 21: the loop.  It ends when the sequence is exhausted, when the sequence raises,
  or when the body raises; nothing is caught.
\<close>

fun for_loop :: "env \<Rightarrow> content_file list \<Rightarrow> py_error option \<Rightarrow> py_str \<Rightarrow> py_str \<times> outcome" where
  "for_loop E [] None out = (out, Finished)"
| "for_loop E [] (Some e) out = (out, Uncaught e)"
| "for_loop E (result # rest) stop out =
     (case loop_body E result out of
        Inl e \<Rightarrow> (out, Uncaught e)
      | Inr out' \<Rightarrow> for_loop E rest stop out')"

text \<open>
  The script from line 10 on, for a free-text term: encode it, search once with the
  encoded term, loop over the results.
\<close>

definition script :: "py_str \<Rightarrow> env \<Rightarrow> run" where
  "script term E =
     (case quote term of
        Inl e \<Rightarrow> \<lparr>stdout = [], calls = [], ending = Uncaught e\<rparr>
      | Inr encoded_query \<Rightarrow>
          (case search_code E g (search_request encoded_query) of
             Inl e \<Rightarrow>
               \<lparr>stdout = [], calls = [(g, search_request encoded_query)], ending = Uncaught e\<rparr>
           | Inr (PaginatedList results stop) \<Rightarrow>
               \<lparr>stdout = fst (for_loop E results stop []),
                calls = [(g, search_request encoded_query)],
                ending = snd (for_loop E results stop [])\<rparr>))"

text \<open>The script as it is, with the term of line 9.\<close>

definition main :: "env \<Rightarrow> run" where
  "main E = script query E"

text \<open>
  The report of one match in the format of the spec: four lines, the last one with the
  text of the version.
\<close>

definition four_lines :: "content_file \<Rightarrow> py_str \<Rightarrow> py_str" where
  "four_lines r version =
     lit ''Repository: '' @ full_name (repository r) @ [10]
     @ lit ''File path: '' @ path r @ [10]
     @ lit ''URL: '' @ html_url r @ [10]
     @ lit ''Angular JS: '' @ version @ [10]"





subsection \<open>Example collaborators\<close>

text \<open>
  Four files, a parser that knows the text of three of them and rejects everything
  else, and a client that answers every search with a given result.
\<close>

definition blit :: "string \<Rightarrow> byte list" where
  "blit s = map of_char s"

definition file_with :: "byte list \<Rightarrow> content_file" where
  "file_with content =
     \<lparr>repository = \<lparr>full_name = lit ''owner/repo''\<rparr>, path = lit ''package.json'',
      html_url = lit ''https://example/owner/repo/package.json'',
      decoded_content = content\<rparr>"

definition good_file :: content_file where
  \<open>good_file = file_with (blit ''{"dependencies": {"angular": "1.2.3"}}'')\<close>

definition keyless_file :: content_file where
  \<open>keyless_file = file_with (blit ''{"dependencies": {"react": "18.0.0"}}'')\<close>

definition listed_file :: content_file where
  \<open>listed_file = file_with (blit ''{"dependencies": {"angular": [1, "2", null]}}'')\<close>


definition example_loads :: "byte list \<Rightarrow> py_error + py_value" where
  "example_loads b =
     (if b = decoded_content good_file then
        Inr (PyDict [(lit ''dependencies'', PyDict [(lit ''angular'', PyStr (lit ''1.2.3''))])])
      else if b = decoded_content keyless_file then
        Inr (PyDict [(lit ''dependencies'', PyDict [(lit ''react'', PyStr (lit ''18.0.0''))])])
      else if b = decoded_content listed_file then
        Inr (PyDict [(lit ''dependencies'',
               PyDict [(lit ''angular'', PyList [PyInt 1, PyStr (lit ''2''), PyNone])])])
      else Inl JSONDecodeError)"

definition example_env :: "py_error + paginated_list \<Rightarrow> env" where
  "example_env answer =
     \<lparr>search_code = (\<lambda>c rq. answer), json_loads = example_loads, isprintable = (\<lambda>c. True)\<rparr>"

section \<open>Properties of the encoding step\<close>

subsection \<open>UTF-8: decoding undoes encoding\<close>

lemma unat_to_byte: "n < 256 \<Longrightarrow> unat (to_byte n) = n"
  by (simp add: to_byte_def unat_of_nat)

lemma utf8_next_1:
  "c < 0x80 \<Longrightarrow> utf8_next (to_byte c # rest) = Some (c, rest)"
  by (simp add: utf8_next_def unat_to_byte)

lemma utf8_next_2:
  assumes "2 \<le> q" "q < 32" "r < 64"
  shows "utf8_next (to_byte (0xC0 + q) # to_byte (0x80 + r) # rest) = Some (q * 64 + r, rest)"
  using assms by (simp add: utf8_next_def unat_to_byte is_cont_def)

lemma utf8_next_3:
  assumes "p < 16" "q < 64" "r < 64" "c = p * 4096 + q * 64 + r"
    and "0x800 \<le> c" "\<not> is_surrogate c"
  shows "utf8_next (to_byte (0xE0 + p) # to_byte (0x80 + q) # to_byte (0x80 + r) # rest)
         = Some (c, rest)"
  using assms by (simp add: utf8_next_def unat_to_byte is_cont_def)

lemma utf8_next_4:
  assumes "o' < 8" "p < 64" "q < 64" "r < 64" "c = o' * 262144 + p * 4096 + q * 64 + r"
    and "0x10000 \<le> c" "c < 0x110000"
  shows "utf8_next (to_byte (0xF0 + o') # to_byte (0x80 + p) # to_byte (0x80 + q)
                    # to_byte (0x80 + r) # rest) = Some (c, rest)"
  using assms by (simp add: utf8_next_def unat_to_byte is_cont_def)

lemma split3: "(c::nat) div 4096 * 4096 + c div 64 mod 64 * 64 + c mod 64 = c"
proof -
  have "c mod 4096 = 64 * (c div 64 mod 64) + c mod 64"
    using mod_mult2_eq [of c 64 64] by simp
  moreover have "c div 4096 * 4096 + c mod 4096 = c"
    by simp
  ultimately show ?thesis by simp
qed

lemma split4:
  "(c::nat) div 262144 * 262144 + c div 4096 mod 64 * 4096 + c div 64 mod 64 * 64 + c mod 64 = c"
proof -
  have "c mod 262144 = 4096 * (c div 4096 mod 64) + c mod 4096"
    using mod_mult2_eq [of c 4096 64] by simp
  moreover have "c mod 4096 = 64 * (c div 64 mod 64) + c mod 64"
    using mod_mult2_eq [of c 64 64] by simp
  moreover have "c div 262144 * 262144 + c mod 262144 = c"
    by simp
  ultimately show ?thesis by simp
qed

lemma utf8_next_encode_char:
  assumes "utf8_encode_char c = Inr bs"
  shows "utf8_next (bs @ rest) = Some (c, rest)"
proof -
  consider (a) "c < 0x80" | (b) "0x80 \<le> c" "c < 0x800"
    | (c) "0x800 \<le> c" "c < 0x10000" | (d) "0x10000 \<le> c" "c < 0x110000" | (e) "0x110000 \<le> c"
    by linarith
  then show ?thesis
  proof cases
    case a
    with assms have "bs = [to_byte c]" by (simp add: utf8_encode_char_def)
    with a show ?thesis by (simp add: utf8_next_1)
  next
    case b
    with assms have bs: "bs = [to_byte (0xC0 + c div 64), to_byte (0x80 + c mod 64)]"
      by (simp add: utf8_encode_char_def)
    have "2 \<le> c div 64" using b(1) by simp
    moreover have "c div 64 < 32" using b(2) by simp
    moreover have "c mod 64 < 64" by simp
    ultimately have "utf8_next (to_byte (0xC0 + c div 64) # to_byte (0x80 + c mod 64) # rest)
        = Some (c div 64 * 64 + c mod 64, rest)"
      by (rule utf8_next_2)
    then show ?thesis by (simp add: bs)
  next
    case c
    with assms have ns: "\<not> is_surrogate c"
      and bs: "bs = [to_byte (0xE0 + c div 4096), to_byte (0x80 + c div 64 mod 64),
                     to_byte (0x80 + c mod 64)]"
      by (auto simp: utf8_encode_char_def split: if_splits)
    have "c div 4096 < 16" using c(2) by simp
    moreover have "c div 64 mod 64 < 64" "c mod 64 < 64" by simp_all
    moreover have "c = c div 4096 * 4096 + c div 64 mod 64 * 64 + c mod 64"
      by (rule split3 [symmetric])
    ultimately have "utf8_next (to_byte (0xE0 + c div 4096) # to_byte (0x80 + c div 64 mod 64)
        # to_byte (0x80 + c mod 64) # rest) = Some (c, rest)"
      using c(1) ns by (rule utf8_next_3)
    then show ?thesis by (simp add: bs)
  next
    case d
    with assms have bs: "bs = [to_byte (0xF0 + c div 262144), to_byte (0x80 + c div 4096 mod 64),
                     to_byte (0x80 + c div 64 mod 64), to_byte (0x80 + c mod 64)]"
      by (simp add: utf8_encode_char_def)
    have "c div 262144 < 8" using d(2) by simp
    moreover have "c div 4096 mod 64 < 64" "c div 64 mod 64 < 64" "c mod 64 < 64" by simp_all
    moreover have "c = c div 262144 * 262144 + c div 4096 mod 64 * 4096
                       + c div 64 mod 64 * 64 + c mod 64"
      by (rule split4 [symmetric])
    ultimately have "utf8_next (to_byte (0xF0 + c div 262144) # to_byte (0x80 + c div 4096 mod 64)
        # to_byte (0x80 + c div 64 mod 64) # to_byte (0x80 + c mod 64) # rest) = Some (c, rest)"
      using d by (rule utf8_next_4)
    then show ?thesis by (simp add: bs)
  next
    case e
    with assms show ?thesis by (simp add: utf8_encode_char_def)
  qed
qed

lemma utf8_decode_encode:
  "str_encode s = Inr bs \<Longrightarrow> utf8_decode bs = Some s"
proof (induction s arbitrary: bs)
  case Nil
  then show ?case by (simp add: utf8_decode.simps)
next
  case (Cons c cs)
  then obtain b1 b2 where c: "utf8_encode_char c = Inr b1" and cs: "str_encode cs = Inr b2"
    and bs: "bs = b1 @ b2"
    by (auto split: sum.splits)
  have nx: "utf8_next (b1 @ b2) = Some (c, b2)"
    using c by (rule utf8_next_encode_char)
  then have "b1 @ b2 \<noteq> []" by (auto simp: utf8_next_def)
  then show ?case
    using nx Cons.IH [OF cs] by (simp add: bs utf8_decode.simps [of "b1 @ b2"])
qed


subsection \<open>Percent-encoding: the safe bytes, and decoding undoes quoting\<close>

lemma safe_codes:
  "map unat (ALWAYS_SAFE @ default_safe) =
     [65 ..< 91] @ [97 ..< 123] @ [48 ..< 58] @ [95, 46, 45, 126, 47]"
  by (simp add: ALWAYS_SAFE_def default_safe_def upt_rec)

lemma is_safe_iff:
  "is_safe b \<longleftrightarrow> is_alnum (unat b) \<or> unat b \<in> {95, 46, 45, 126, 47}"
proof -
  have "is_safe b \<longleftrightarrow> unat b \<in> unat ` set (ALWAYS_SAFE @ default_safe)"
  proof -
    have "inj (unat :: byte \<Rightarrow> nat)"
      by (rule injI) (simp add: word_unat_eq_iff)
    then show ?thesis
      unfolding is_safe_def by (simp only: inj_image_mem_iff)
  qed
  also have "unat ` set (ALWAYS_SAFE @ default_safe) = set (map unat (ALWAYS_SAFE @ default_safe))"
    by (simp only: set_map)
  also have "unat b \<in> \<dots> \<longleftrightarrow> is_alnum (unat b) \<or> unat b \<in> {95, 46, 45, 126, 47}"
  proof -
    have "set ([65 ..< 91] @ [97 ..< 123] @ [48 ..< 58] @ [95, 46, 45, 126, 47])
          = {65 ..< 91} \<union> ({97 ..< 123} \<union> ({48 ..< 58} \<union> {95, 46, 45, 126, 47::nat}))"
      by (simp only: set_append set_upt list.set)
    then show ?thesis
      unfolding safe_codes is_alnum_def by auto
  qed
  finally show ?thesis .
qed


lemma quote_from_bytes_concat:
  "quote_from_bytes bs safe = concat (map (quoter safe) bs)"
proof -
  have "list_all (\<lambda>b. b \<in> set (ALWAYS_SAFE @ safe)) xs \<Longrightarrow>
        map unat xs = concat (map (quoter safe) xs)" for xs
    by (induction xs) (simp_all add: quoter_def)
  then show ?thesis
    by (simp add: quote_from_bytes_def)
qed

lemma unhex_hex_upper: "d < 16 \<Longrightarrow> unhex (hex_upper d) = Some d"
  by (simp add: unhex_def hex_upper_def)

lemma of_nat_unat_byte: "(of_nat (unat b) :: byte) = b"
  by simp

lemma percent_decode_escape:
  "unhex h = Some a \<Longrightarrow> unhex l = Some d \<Longrightarrow>
   percent_decode (37 # h # l # rest) = map_option ((#) (of_nat (16 * a + d))) (percent_decode rest)"
  by simp

lemma percent_decode_quoter:
  "percent_decode (quoter default_safe b @ rest) = map_option ((#) b) (percent_decode rest)"
proof (cases "is_safe b")
  case True
  then have "unat b < 128" "unat b \<noteq> 37"
    by (auto simp: is_safe_iff is_alnum_def)
  moreover from True have "quoter default_safe b = [unat b]"
    by (simp add: quoter_def is_safe_def)
  ultimately show ?thesis by simp
next
  case False
  then have q: "quoter default_safe b = [37, hex_upper (unat b div 16), hex_upper (unat b mod 16)]"
    by (simp add: quoter_def is_safe_def)
  have "unat b < 2 ^ LENGTH(8)" by (rule unsigned_less)
  then have "unat b < 256" by simp
  then have "unat b div 16 < 16" by simp
  then have h: "unhex (hex_upper (unat b div 16)) = Some (unat b div 16)"
    by (rule unhex_hex_upper)
  have l: "unhex (hex_upper (unat b mod 16)) = Some (unat b mod 16)"
    by (rule unhex_hex_upper) simp
  have "16 * (unat b div 16) + unat b mod 16 = unat b" by simp
  then have "(of_nat (16 * (unat b div 16) + unat b mod 16) :: byte) = b"
    by (simp only: of_nat_unat_byte)
  with percent_decode_escape [OF h l, of rest] show ?thesis
    by (simp only: q append_Cons append_Nil)
qed

lemma percent_decode_quote_from_bytes:
  "percent_decode (quote_from_bytes bs default_safe) = Some bs"
  unfolding quote_from_bytes_concat
  by (induction bs) (simp_all add: percent_decode_quoter)

lemma decode_quote: "quote x = Inr y \<Longrightarrow> decode y = Some x"
proof -
  assume q: "quote x = Inr y"
  have "\<exists>bs. str_encode x = Inr bs \<and> y = quote_from_bytes bs default_safe"
  proof (cases "x = []")
    case True
    with q show ?thesis by (simp add: quote_def quote_from_bytes_def)
  next
    case False
    with q show ?thesis by (simp add: quote_def split: sum.splits)
  qed
  then obtain bs where e: "str_encode x = Inr bs" and y: "y = quote_from_bytes bs default_safe"
    by blast
  have "decode y = utf8_decode bs"
    by (simp add: decode_def y percent_decode_quote_from_bytes)
  also have "\<dots> = Some x"
    using e by (rule utf8_decode_encode)
  finally show ?thesis .
qed



subsection \<open>What is quoted and what is not\<close>

lemma is_safe_unat: "is_safe b \<longleftrightarrow> safe_char (unat b)"
  by (auto simp: is_safe_iff safe_char_def is_unreserved_def)

lemma safe_char_ascii: "safe_char c \<Longrightarrow> c < 128"
  by (auto simp: safe_char_def is_unreserved_def is_alnum_def)

lemma quoter_default:
  "quoter default_safe b =
     (if safe_char (unat b) then [unat b]
      else [37, hex_upper (unat b div 16), hex_upper (unat b mod 16)])"
  using is_safe_unat [of b] by (simp add: quoter_def is_safe_def)

lemma quote_alt:
  "quote x = (case str_encode x of
                Inl e \<Rightarrow> Inl e
              | Inr bs \<Rightarrow> Inr (concat (map (quoter default_safe) bs)))"
  by (cases "x = []") (simp_all add: quote_def quote_from_bytes_concat split: sum.splits)

lemma utf8_encode_char_ascii: "c < 128 \<Longrightarrow> utf8_encode_char c = Inr [to_byte c]"
  by (simp add: utf8_encode_char_def)

lemma quote_ascii_char:
  assumes "c < 128"
  shows "quote [c] = Inr (if safe_char c then [c]
                          else [37, hex_upper (c div 16), hex_upper (c mod 16)])"
proof -
  have "unat (to_byte c) = c"
    using assms by (simp add: unat_to_byte)
  then show ?thesis
    by (simp add: quote_alt utf8_encode_char_ascii [OF assms] quoter_default)
qed

lemma reserved_codes:
  "is_reserved c \<longleftrightarrow> c \<in> {58, 47, 63, 35, 91, 93, 64, 33, 36, 38, 40, 41, 42, 43, 44, 59, 61, 39}"
  by (simp add: is_reserved_def lit_def)

lemma reserved_not_safe: "is_reserved c \<Longrightarrow> c \<noteq> 47 \<Longrightarrow> c < 128 \<and> \<not> safe_char c"
  by (auto simp: reserved_codes safe_char_def is_unreserved_def is_alnum_def)

lemma quote_reserved_char:
  "is_reserved c \<Longrightarrow> c \<noteq> 47 \<Longrightarrow>
   quote [c] = Inr [37, hex_upper (c div 16), hex_upper (c mod 16)]"
  using reserved_not_safe [of c] by (simp add: quote_ascii_char)

lemma str_encode_safe: "list_all safe_char x \<Longrightarrow> str_encode x = Inr (map to_byte x)"
  by (induction x) (simp_all add: utf8_encode_char_ascii safe_char_ascii)

lemma quoter_safe: "safe_char c \<Longrightarrow> quoter default_safe (to_byte c) = [c]"
proof -
  assume s: "safe_char c"
  then have "c < 128" by (rule safe_char_ascii)
  then have "unat (to_byte c) = c" by (simp add: unat_to_byte)
  with s show ?thesis by (simp add: quoter_default)
qed

lemma quote_safe: "list_all safe_char x \<Longrightarrow> quote x = Inr x"
proof -
  assume s: "list_all safe_char x"
  then have "concat (map (quoter default_safe) (map to_byte x)) = x"
    by (induction x) (simp_all add: quoter_safe)
  then show ?thesis
    by (simp add: quote_alt str_encode_safe [OF s])
qed

lemma alnum_safe: "is_alnum c \<Longrightarrow> safe_char c"
  by (simp add: safe_char_def is_unreserved_def)

lemma quote_alnum: "list_all is_alnum x \<Longrightarrow> quote x = Inr x"
  by (rule quote_safe) (auto simp: list_all_iff alnum_safe)

lemma str_encode_append:
  "str_encode (x @ y) =
     (case str_encode x of
        Inl e \<Rightarrow> Inl e
      | Inr a \<Rightarrow> (case str_encode y of Inl e \<Rightarrow> Inl e | Inr b \<Rightarrow> Inr (a @ b)))"
  by (induction x) (auto split: sum.splits)

lemma quote_append:
  "quote x = Inr a \<Longrightarrow> quote y = Inr b \<Longrightarrow> quote (x @ y) = Inr (a @ b)"
  by (auto simp: quote_alt str_encode_append split: sum.splits)

lemma utf8_encode_char_ok:
  "c < 0x110000 \<Longrightarrow> \<not> is_surrogate c \<Longrightarrow> \<exists>bs. utf8_encode_char c = Inr bs"
  by (simp add: utf8_encode_char_def)

lemma utf8_encode_char_error:
  "utf8_encode_char c = Inl e \<Longrightarrow> e = UnicodeEncodeError \<and> (is_surrogate c \<or> 0x110000 \<le> c)"
  by (auto simp: utf8_encode_char_def split: if_splits)

lemma str_encode_ok_iff:
  "valid_str x \<Longrightarrow> (\<exists>bs. str_encode x = Inr bs) \<longleftrightarrow> \<not> list_ex is_surrogate x"
proof (induction x)
  case Nil
  show ?case by simp
next
  case (Cons c cs)
  then have c: "c < 0x110000" and cs: "valid_str cs"
    by (simp_all add: valid_str_def)
  show ?case
  proof (cases "is_surrogate c")
    case True
    then have "utf8_encode_char c = Inl UnicodeEncodeError"
      by (auto simp: utf8_encode_char_def is_surrogate_def)
    with True show ?thesis by simp
  next
    case False
    then obtain bs where "utf8_encode_char c = Inr bs"
      using utf8_encode_char_ok [OF c] by blast
    with False Cons.IH [OF cs] show ?thesis
      by (auto split: sum.splits)
  qed
qed

lemma str_encode_error: "str_encode x = Inl e \<Longrightarrow> e = UnicodeEncodeError"
  by (induction x) (auto split: sum.splits dest: utf8_encode_char_error)

lemma str_encode_surrogate:
  "list_ex is_surrogate x \<Longrightarrow> \<exists>e. str_encode x = Inl e"
proof (induction x)
  case Nil
  then show ?case by simp
next
  case (Cons c cs)
  show ?case
  proof (cases "utf8_encode_char c")
    case (Inl e)
    then show ?thesis by simp
  next
    case (Inr bs)
    then have "\<not> is_surrogate c"
      by (auto simp: utf8_encode_char_def is_surrogate_def split: if_splits)
    with Cons.prems have "list_ex is_surrogate cs" by simp
    then obtain e where "str_encode cs = Inl e"
      using Cons.IH by blast
    with Inr show ?thesis by simp
  qed
qed

lemma quote_surrogate: "list_ex is_surrogate x \<Longrightarrow> quote x = Inl UnicodeEncodeError"
proof -
  assume "list_ex is_surrogate x"
  then obtain e where e: "str_encode x = Inl e"
    using str_encode_surrogate by blast
  then have "e = UnicodeEncodeError" by (rule str_encode_error)
  with e show ?thesis by (simp add: quote_alt)
qed

lemma quote_ok_iff:
  "valid_str x \<Longrightarrow> (\<exists>y. quote x = Inr y) \<longleftrightarrow> \<not> list_ex is_surrogate x"
  using str_encode_ok_iff [of x] by (auto simp: quote_alt split: sum.splits)

lemma quote_error: "quote x = Inl e \<Longrightarrow> e = UnicodeEncodeError"
  by (auto simp: quote_alt split: sum.splits dest: str_encode_error)


subsection \<open>The alphabet of the output, and encoding twice\<close>

lemma hex_upper_alnum: "d < 16 \<Longrightarrow> is_alnum (hex_upper d)"
  by (auto simp: hex_upper_def is_alnum_def)

lemma percent_not_safe: "\<not> safe_char 37"
  by (simp add: safe_char_def is_unreserved_def is_alnum_def)

lemma quoter_alphabet: "list_all (\<lambda>c. safe_char c \<or> c = 37) (quoter default_safe b)"
proof -
  have "unat b < 2 ^ LENGTH(8)" by (rule unsigned_less)
  then have "unat b < 256" by simp
  then have "unat b div 16 < 16" by simp
  then have "safe_char (hex_upper (unat b div 16))"
    by (intro alnum_safe hex_upper_alnum)
  moreover have "safe_char (hex_upper (unat b mod 16))"
    by (intro alnum_safe hex_upper_alnum) simp
  ultimately show ?thesis
    by (simp add: quoter_default)
qed

lemma quote_alphabet:
  assumes "quote x = Inr y"
  shows "list_all (\<lambda>c. safe_char c \<or> c = 37) y"
proof -
  obtain bs where y: "y = concat (map (quoter default_safe) bs)"
    using assms by (auto simp: quote_alt split: sum.splits)
  have "list_all (\<lambda>c. safe_char c \<or> c = 37) (concat (map (quoter default_safe) bs))"
    by (induction bs) (simp_all add: quoter_alphabet)
  then show ?thesis by (simp add: y)
qed

lemma quote_no_reserved:
  assumes "quote x = Inr y"
  shows "list_all (\<lambda>c. is_reserved c \<longrightarrow> c = 47) y"
proof -
  have "(safe_char c \<or> c = 37) \<Longrightarrow> is_reserved c \<longrightarrow> c = 47" for c
    using reserved_not_safe [of c] by (auto simp: reserved_codes)
  with quote_alphabet [OF assms] show ?thesis
    by (auto simp: list_all_iff)
qed

lemma quote_ascii:
  assumes "quote x = Inr y"
  shows "list_all (\<lambda>c. c < 128) y"
  using quote_alphabet [OF assms] by (auto simp: list_all_iff dest: safe_char_ascii)

lemma str_encode_ascii: "list_all (\<lambda>c. c < 128) y \<Longrightarrow> str_encode y = Inr (map to_byte y)"
  by (induction y) (simp_all add: utf8_encode_char_ascii)

lemma quote_again:
  assumes "quote x = Inr y"
  shows "\<exists>z. quote y = Inr z"
  by (simp add: quote_alt str_encode_ascii [OF quote_ascii [OF assms]])

lemma utf8_next_first:
  "utf8_next bs = Some (c, rest) \<Longrightarrow>
   \<exists>b0 r0. bs = b0 # r0 \<and> (unat b0 < 128 \<longrightarrow> c = unat b0 \<and> rest = r0)"
  by (auto simp: utf8_next_def split: list.splits if_splits)

lemma utf8_encode_char_first:
  assumes "utf8_encode_char c = Inr bs"
  shows "\<exists>b0 r0. bs = b0 # r0 \<and> (unat b0 < 128 \<longrightarrow> c = unat b0 \<and> r0 = [])"
  using utf8_next_first [OF utf8_next_encode_char [OF assms, of "[]"]] by auto

lemma quoter_length: "1 \<le> length (quoter default_safe b)"
  by (simp add: quoter_default)

lemma quoter_length_one: "length (quoter default_safe b) = 1 \<longleftrightarrow> safe_char (unat b)"
  by (simp add: quoter_default)

lemma quoter_all_safe: "list_all safe_char (quoter default_safe b) \<longleftrightarrow> safe_char (unat b)"
  by (simp add: quoter_default percent_not_safe)

lemma char_length:
  assumes "utf8_encode_char c = Inr bs"
  shows "1 \<le> length (concat (map (quoter default_safe) bs))"
    and "length (concat (map (quoter default_safe) bs)) = 1 \<Longrightarrow> safe_char c"
proof -
  obtain b0 r0 where bs: "bs = b0 # r0" and f: "unat b0 < 128 \<longrightarrow> c = unat b0 \<and> r0 = []"
    using utf8_encode_char_first [OF assms] by blast
  show "1 \<le> length (concat (map (quoter default_safe) bs))"
    using quoter_length [of b0] by (simp add: bs)
  assume "length (concat (map (quoter default_safe) bs)) = 1"
  then have "length (quoter default_safe b0) + length (concat (map (quoter default_safe) r0)) = 1"
    by (simp add: bs)
  with quoter_length [of b0] have "length (quoter default_safe b0) = 1"
    by linarith
  then have s: "safe_char (unat b0)"
    by (simp only: quoter_length_one)
  then have "unat b0 < 128" by (rule safe_char_ascii)
  with f s show "safe_char c" by simp
qed

lemma char_all_safe:
  assumes "utf8_encode_char c = Inr bs"
    and "list_all safe_char (concat (map (quoter default_safe) bs))"
  shows "safe_char c"
proof -
  obtain b0 r0 where bs: "bs = b0 # r0" and f: "unat b0 < 128 \<longrightarrow> c = unat b0 \<and> r0 = []"
    using utf8_encode_char_first [OF assms(1)] by blast
  from assms(2) have "list_all safe_char (quoter default_safe b0)"
    by (simp add: bs)
  then have s: "safe_char (unat b0)"
    by (simp only: quoter_all_safe)
  then have "unat b0 < 128" by (rule safe_char_ascii)
  with f s show "safe_char c" by simp
qed

lemma str_encode_length:
  "str_encode x = Inr bs \<Longrightarrow>
   length x \<le> length (concat (map (quoter default_safe) bs))
   \<and> (length (concat (map (quoter default_safe) bs)) = length x \<longrightarrow> list_all safe_char x)"
proof (induction x arbitrary: bs)
  case Nil
  then show ?case by simp
next
  case (Cons c cs)
  then obtain b1 b2 where c: "utf8_encode_char c = Inr b1" and cs: "str_encode cs = Inr b2"
    and bs: "bs = b1 @ b2"
    by (auto split: sum.splits)
  let ?n1 = "length (concat (map (quoter default_safe) b1))"
  let ?n2 = "length (concat (map (quoter default_safe) b2))"
  have l1: "1 \<le> ?n1" by (rule char_length(1) [OF c])
  have l2: "length cs \<le> ?n2" using Cons.IH [OF cs] by simp
  have e: "?n2 = length cs \<longrightarrow> list_all safe_char cs" using Cons.IH [OF cs] by simp
  have n: "length (concat (map (quoter default_safe) bs)) = ?n1 + ?n2"
    by (simp add: bs)
  show ?case
  proof (intro conjI impI)
    show "length (c # cs) \<le> length (concat (map (quoter default_safe) bs))"
      using l1 l2 by (simp add: n)
  next
    assume "length (concat (map (quoter default_safe) bs)) = length (c # cs)"
    then have "?n1 + ?n2 = 1 + length cs" by (simp add: n)
    with l1 l2 have "?n1 = 1" "?n2 = length cs" by linarith+
    then show "list_all safe_char (c # cs)"
      using char_length(2) [OF c] e by simp
  qed
qed

lemma str_encode_all_safe:
  "str_encode x = Inr bs \<Longrightarrow> list_all safe_char (concat (map (quoter default_safe) bs)) \<Longrightarrow>
   list_all safe_char x"
proof (induction x arbitrary: bs)
  case Nil
  then show ?case by simp
next
  case (Cons c cs)
  then obtain b1 b2 where c: "utf8_encode_char c = Inr b1" and cs: "str_encode cs = Inr b2"
    and bs: "bs = b1 @ b2"
    by (auto split: sum.splits)
  from Cons.prems(2) have "list_all safe_char (concat (map (quoter default_safe) b1))"
    and "list_all safe_char (concat (map (quoter default_safe) b2))"
    by (simp_all add: bs)
  then show ?case
    using char_all_safe [OF c] Cons.IH [OF cs] by simp
qed

lemma quote_fixed_iff:
  assumes "quote x = Inr y"
  shows "y = x \<longleftrightarrow> list_all safe_char x"
proof
  assume "y = x"
  moreover obtain bs where e: "str_encode x = Inr bs"
    and y: "y = concat (map (quoter default_safe) bs)"
    using assms by (auto simp: quote_alt split: sum.splits)
  ultimately have "length (concat (map (quoter default_safe) bs)) = length x"
    by simp
  with str_encode_length [OF e] show "list_all safe_char x" by simp
next
  assume "list_all safe_char x"
  then have "quote x = Inr x" by (rule quote_safe)
  with assms show "y = x" by simp
qed

lemma quote_safe_iff:
  assumes "quote x = Inr y"
  shows "list_all safe_char y \<longleftrightarrow> list_all safe_char x"
proof
  assume s: "list_all safe_char y"
  obtain bs where e: "str_encode x = Inr bs"
    and y: "y = concat (map (quoter default_safe) bs)"
    using assms by (auto simp: quote_alt split: sum.splits)
  from s show "list_all safe_char x"
    unfolding y by (rule str_encode_all_safe [OF e])
next
  assume s: "list_all safe_char x"
  then have "y = x" using quote_fixed_iff [OF assms] by simp
  with s show "list_all safe_char y" by simp
qed

lemma quote_twice:
  assumes "quote x = Inr y"
  shows "\<exists>z. quote y = Inr z \<and> (z = y \<longleftrightarrow> y = x)"
proof -
  obtain z where z: "quote y = Inr z"
    using quote_again [OF assms] by blast
  have "z = y \<longleftrightarrow> list_all safe_char y" by (rule quote_fixed_iff [OF z])
  also have "\<dots> \<longleftrightarrow> list_all safe_char x" by (rule quote_safe_iff [OF assms])
  also have "\<dots> \<longleftrightarrow> y = x" by (rule quote_fixed_iff [OF assms, symmetric])
  finally show ?thesis using z by blast
qed


subsection \<open>Evaluating the encoding on examples\<close>

lemmas quote_eval = quote_def quote_from_bytes_def quoter_def utf8_encode_char_def to_byte_def
  hex_upper_def ALWAYS_SAFE_def default_safe_def is_surrogate_def lit_def

lemma quote_query: "quote (lit ''angular'') = Inr (lit ''angular'')"
  by (simp add: quote_eval)

lemma quote_example:
  "quote (lit ''a b/c?'' @ [0xE9, 0x20AC, 0x1F600])
     = Inr (lit ''a%20b/c%3F%C3%A9%E2%82%AC%F0%9F%98%80'')"
  by (simp add: quote_eval)

subsection \<open>Reserved characters, alphanumeric characters and the round trip\<close>

text \<open>
  C6, as stated: the encoding step percent-encodes the reserved URL characters, leaves
  alphanumeric characters unchanged, and \<open>decode (encode x) = x\<close> for every string
  \<open>x\<close>.  This fails twice: the slash is a reserved character and is left as it is
  (it is the default \<open>safe\<close> argument of \<open>quote\<close>), and a string with a surrogate
  code point is not encoded at all, \<open>quote\<close> raises UnicodeEncodeError.
\<close>

theorem encoding_step_counterexample:
  "is_reserved 47 \<and> quote [47] = Inr [47]
   \<and> valid_str [0xDC00] \<and> quote [0xDC00] = Inl UnicodeEncodeError"
  by (simp add: reserved_codes valid_str_def quote_eval)

text \<open>
  C6, amended.  The encoding step replaces every reserved URL character other than the
  slash by a percent sign and the two upper-case hexadecimal digits of its code, so
  that no reserved character other than the slash is left in an encoded string; it
  leaves a string of alphanumeric characters unchanged; it encodes a concatenation
  piece by piece; and whenever it returns, decoding its result gives the input back,
  which is the case for every string without surrogate code points.  On a string with
  a surrogate code point it raises UnicodeEncodeError.
\<close>

theorem encoding_step_amended:
  "(is_reserved c \<and> c \<noteq> 47 \<longrightarrow>
      quote [c] = Inr [37, hex_upper (c div 16), hex_upper (c mod 16)])
   \<and> (quote x = Inr y \<longrightarrow> list_all (\<lambda>d. is_reserved d \<longrightarrow> d = 47) y \<and> decode y = Some x)
   \<and> (list_all is_alnum a \<longrightarrow> quote a = Inr a)
   \<and> (quote u = Inr u' \<and> quote v = Inr v' \<longrightarrow> quote (u @ v) = Inr (u' @ v'))
   \<and> (valid_str s \<and> \<not> list_ex is_surrogate s \<longrightarrow> (\<exists>t. quote s = Inr t \<and> decode t = Some s))
   \<and> (list_ex is_surrogate w \<longrightarrow> quote w = Inl UnicodeEncodeError)"
proof (intro conjI impI)
  assume "list_ex is_surrogate w"
  then show "quote w = Inl UnicodeEncodeError" by (rule quote_surrogate)
next
  assume "is_reserved c \<and> c \<noteq> 47"
  then show "quote [c] = Inr [37, hex_upper (c div 16), hex_upper (c mod 16)]"
    by (simp add: quote_reserved_char)
next
  assume "quote x = Inr y"
  then show "list_all (\<lambda>d. is_reserved d \<longrightarrow> d = 47) y" by (rule quote_no_reserved)
next
  assume "quote x = Inr y"
  then show "decode y = Some x" by (rule decode_quote)
next
  assume "list_all is_alnum a"
  then show "quote a = Inr a" by (rule quote_alnum)
next
  assume "quote u = Inr u' \<and> quote v = Inr v'"
  then show "quote (u @ v) = Inr (u' @ v')" by (simp add: quote_append)
next
  assume "valid_str s \<and> \<not> list_ex is_surrogate s"
  then obtain t where "quote s = Inr t"
    using quote_ok_iff [of s] by blast
  then show "\<exists>t. quote s = Inr t \<and> decode t = Some s"
    using decode_quote by blast
qed

theorem encoding_step_amended_witness:
  "is_reserved 63 \<and> quote [63] = Inr (lit ''%3F'')
   \<and> quote (lit ''a b/c?'' @ [0xE9, 0x20AC, 0x1F600])
        = Inr (lit ''a%20b/c%3F%C3%A9%E2%82%AC%F0%9F%98%80'')
   \<and> decode (lit ''a%20b/c%3F%C3%A9%E2%82%AC%F0%9F%98%80'')
        = Some (lit ''a b/c?'' @ [0xE9, 0x20AC, 0x1F600])
   \<and> list_all is_alnum (lit ''angular1'') \<and> quote (lit ''angular1'') = Inr (lit ''angular1'')
   \<and> valid_str (lit ''a b/c?'' @ [0xE9, 0x20AC, 0x1F600])
   \<and> \<not> list_ex is_surrogate (lit ''a b/c?'' @ [0xE9, 0x20AC, 0x1F600])
   \<and> list_ex is_surrogate [0xDC00] \<and> quote [0xDC00] = Inl UnicodeEncodeError"
proof -
  let ?x = "lit ''a b/c?'' @ [0xE9, 0x20AC, 0x1F600]"
  let ?y = "lit ''a%20b/c%3F%C3%A9%E2%82%AC%F0%9F%98%80''"
  have r: "is_reserved 63 \<and> (63::nat) \<noteq> 47" by (simp add: reserved_codes)
  have a: "list_all is_alnum (lit ''angular1'')" by (simp add: lit_def is_alnum_def)
  have v: "valid_str ?x \<and> \<not> list_ex is_surrogate ?x"
    by (simp add: valid_str_def is_surrogate_def lit_def)
  have h: "[37, hex_upper (63 div 16), hex_upper (63 mod 16)] = lit ''%3F''"
    by (simp add: hex_upper_def lit_def)
  have g: "list_ex is_surrogate [0xDC00]"
    by (simp add: is_surrogate_def)
  show ?thesis
    using r a v h g quote_example
      encoding_step_amended [of 63 ?x ?y "lit ''angular1''" ?x ?y ?x ?y ?x "[0xDC00]"]
    by simp
qed

subsection \<open>Errors and fixed points of the encoding\<close>

text \<open>
  C7, as stated: the encoding step has no error conditions.  It has one: a string with
  a surrogate code point, such as U+D800 alone, cannot be encoded as UTF-8 and
  \<open>quote\<close> raises UnicodeEncodeError.
\<close>

theorem encoding_error_counterexample:
  "valid_str [0xD800] \<and> quote [0xD800] = Inl UnicodeEncodeError"
  by (simp add: valid_str_def quote_eval)

text \<open>
  C7, amended.  The only error of the encoding step is UnicodeEncodeError, raised
  exactly for the strings that contain a surrogate code point.  The empty string is
  returned as it is, and so is every string made only of URL-safe characters (letters,
  digits, \<open>_\<close>, \<open>.\<close>, \<open>-\<close>, \<open>~\<close> and the slash); no other string is left
  unchanged.  In particular the term \<open>angular\<close> of the script is passed through
  unchanged.
\<close>

theorem encoding_errors_and_fixed_points:
  "(valid_str x \<longrightarrow> ((\<exists>y. quote x = Inr y) \<longleftrightarrow> \<not> list_ex is_surrogate x))
   \<and> (quote x = Inl e \<longrightarrow> e = UnicodeEncodeError)
   \<and> quote [] = Inr []
   \<and> (list_all safe_char s \<longrightarrow> quote s = Inr s)
   \<and> (quote t = Inr t \<longrightarrow> list_all safe_char t)
   \<and> quote query = Inr query"
proof (intro conjI impI)
  assume "valid_str x"
  then show "(\<exists>y. quote x = Inr y) \<longleftrightarrow> \<not> list_ex is_surrogate x" by (rule quote_ok_iff)
next
  assume "quote x = Inl e"
  then show "e = UnicodeEncodeError" by (rule quote_error)
next
  show "quote [] = Inr []" by (simp add: quote_def)
next
  assume "list_all safe_char s"
  then show "quote s = Inr s" by (rule quote_safe)
next
  assume "quote t = Inr t"
  then show "list_all safe_char t" using quote_fixed_iff [of t t] by simp
next
  show "quote query = Inr query" by (simp add: query_def quote_query)
qed

theorem encoding_errors_and_fixed_points_witness:
  "valid_str [0xD800] \<and> list_ex is_surrogate [0xD800]
   \<and> quote [0xD800] = Inl UnicodeEncodeError
   \<and> list_all safe_char (lit ''a-b_c.d~e/f'')
   \<and> quote (lit ''a-b_c.d~e/f'') = Inr (lit ''a-b_c.d~e/f'')
   \<and> quote (lit ''angular'') = Inr (lit ''angular'')"
proof -
  have v: "valid_str [0xD800]" by (simp add: valid_str_def)
  have q: "quote [0xD800] = Inl UnicodeEncodeError" by (simp add: quote_eval)
  have s: "list_all safe_char (lit ''a-b_c.d~e/f'')"
    by (simp add: lit_def safe_char_def is_unreserved_def is_alnum_def)
  have g: "list_ex is_surrogate [0xD800]" by (simp add: is_surrogate_def)
  show ?thesis
    using v q s g
      encoding_errors_and_fixed_points [of "[0xD800]" UnicodeEncodeError
        "lit ''a-b_c.d~e/f''" "lit ''a-b_c.d~e/f''"]
    by (simp add: query_def)
qed

section \<open>Properties of the script\<close>

subsection \<open>The loop\<close>

lemma loop_body_ok:
  "angular_js_version E r = Inr v \<Longrightarrow>
   loop_body E r out = Inr (out @ four_lines r (format_value (isprintable E) v))"
  by (simp add: loop_body_def print_def four_lines_def)





lemma for_loop_stop:
  "for_loop E [] stop out = (out, case stop of None \<Rightarrow> Finished | Some e \<Rightarrow> Uncaught e)"
  by (cases stop) simp_all

lemma main_search_raises:
  "search_code E g (search_request (lit ''angular'')) = Inl e \<Longrightarrow>
   main E = \<lparr>stdout = [], calls = [(g, search_request (lit ''angular''))], ending = Uncaught e\<rparr>"
  by (simp add: main_def script_def query_def quote_query)

lemma main_search_returns:
  "search_code E g (search_request (lit ''angular'')) = Inr (PaginatedList results stop) \<Longrightarrow>
   main E = \<lparr>stdout = fst (for_loop E results stop []),
             calls = [(g, search_request (lit ''angular''))],
             ending = snd (for_loop E results stop [])\<rparr>"
  by (simp add: main_def script_def query_def quote_query)

lemma loads_good:
  "example_loads (decoded_content good_file) =
     Inr (PyDict [(lit ''dependencies'', PyDict [(lit ''angular'', PyStr (lit ''1.2.3''))])])"
  by (simp add: example_loads_def)













subsection \<open>One match with the expected content\<close>

text \<open>
  C1.  When the search yields exactly one match, whose content parses to the object
  \<open>{"dependencies": {"angular": "1.2.3"}}\<close>, whose repository is \<open>owner/repo\<close>,
  whose path is \<open>package.json\<close> and whose URL is
  \<open>https://example/owner/repo/package.json\<close>, standard output holds exactly the four
  lines \<open>Repository: owner/repo\<close>, \<open>File path: package.json\<close>,
  \<open>URL: https://example/owner/repo/package.json\<close> and \<open>Angular JS: 1.2.3\<close>, in this
  order, each ended by a newline, and the run ends normally.
\<close>

theorem single_match_output:
  assumes "search_code E g (search_request (lit ''angular'')) = Inr (PaginatedList [r] None)"
    and "json_loads E (decoded_content r) =
           Inr (PyDict [(lit ''dependencies'', PyDict [(lit ''angular'', PyStr (lit ''1.2.3''))])])"
    and "full_name (repository r) = lit ''owner/repo''"
    and "path r = lit ''package.json''"
    and "html_url r = lit ''https://example/owner/repo/package.json''"
  shows "stdout (main E) =
           lit ''Repository: owner/repo'' @ [10]
           @ lit ''File path: package.json'' @ [10]
           @ lit ''URL: https://example/owner/repo/package.json'' @ [10]
           @ lit ''Angular JS: 1.2.3'' @ [10]
         \<and> ending (main E) = Finished"
proof -
  have v: "angular_js_version E r = Inr (PyStr (lit ''1.2.3''))"
    using assms(2) by (simp add: angular_js_version_def)
  have "for_loop E [r] None [] = (four_lines r (lit ''1.2.3''), Finished)"
    by (simp add: loop_body_ok [OF v] format_value_def)
  moreover have "four_lines r (lit ''1.2.3'') =
           lit ''Repository: owner/repo'' @ [10]
           @ lit ''File path: package.json'' @ [10]
           @ lit ''URL: https://example/owner/repo/package.json'' @ [10]
           @ lit ''Angular JS: 1.2.3'' @ [10]"
    using assms(3-5) by (simp add: four_lines_def lit_def)
  ultimately show ?thesis
    by (simp add: main_search_returns [OF assms(1)])
qed

theorem single_match_output_witness:
  "search_code (example_env (Inr (PaginatedList [good_file] None))) g
       (search_request (lit ''angular'')) = Inr (PaginatedList [good_file] None)
   \<and> stdout (main (example_env (Inr (PaginatedList [good_file] None)))) =
           lit ''Repository: owner/repo'' @ [10]
           @ lit ''File path: package.json'' @ [10]
           @ lit ''URL: https://example/owner/repo/package.json'' @ [10]
           @ lit ''Angular JS: 1.2.3'' @ [10]
   \<and> ending (main (example_env (Inr (PaginatedList [good_file] None)))) = Finished"
proof -
  let ?E = "example_env (Inr (PaginatedList [good_file] None))"
  have s: "search_code ?E g (search_request (lit ''angular'')) = Inr (PaginatedList [good_file] None)"
    by (simp add: example_env_def)
  have l: "json_loads ?E (decoded_content good_file) =
           Inr (PyDict [(lit ''dependencies'', PyDict [(lit ''angular'', PyStr (lit ''1.2.3''))])])"
    by (simp add: example_env_def loads_good)
  have f: "full_name (repository good_file) = lit ''owner/repo''"
    "path good_file = lit ''package.json''"
    "html_url good_file = lit ''https://example/owner/repo/package.json''"
    by (simp_all add: good_file_def file_with_def)
  show ?thesis
    using s single_match_output [OF s l f] by simp
qed



subsection \<open>No match\<close>

text \<open>
  C2.  When the search call succeeds and yields no match record at all, nothing is
  written to standard output and the run ends normally, with exit code 0.
\<close>

theorem no_matches_no_output:
  assumes "search_code E g (search_request (lit ''angular'')) = Inr (PaginatedList [] None)"
  shows "stdout (main E) = [] \<and> ending (main E) = Finished \<and> exit_code (ending (main E)) = 0"
  by (simp add: main_search_returns [OF assms])

theorem no_matches_no_output_witness:
  "search_code (example_env (Inr (PaginatedList [] None))) g (search_request (lit ''angular''))
     = Inr (PaginatedList [] None)
   \<and> stdout (main (example_env (Inr (PaginatedList [] None)))) = []
   \<and> ending (main (example_env (Inr (PaginatedList [] None)))) = Finished
   \<and> exit_code (ending (main (example_env (Inr (PaginatedList [] None))))) = 0"
proof -
  have s: "search_code (example_env (Inr (PaginatedList [] None))) g
             (search_request (lit ''angular'')) = Inr (PaginatedList [] None)"
    by (simp add: example_env_def)
  show ?thesis
    using s no_matches_no_output [OF s] by simp
qed

subsection \<open>Failures in the loop body\<close>





subsection \<open>Nothing is caught\<close>



subsection \<open>The search request\<close>

text \<open>
  C9.  Every run makes exactly one call to the search operation, on the client built
  from the empty token: the query is the encoded term \<open>angular\<close>, the sort key is
  \<open>indexed\<close>, the order is \<open>asc\<close>, the highlight flag is set, and the qualifiers are
  exactly \<open>filename = package.json\<close> and
  \<open>repo = gothinkster/angularjs-realworld-example-app\<close>.
\<close>

theorem one_search_request:
  "calls (main E) =
     [(Github (lit ''''),
       \<lparr>arg_query = lit ''angular'', arg_sort = lit ''indexed'', arg_order = lit ''asc'',
        arg_highlight = True,
        arg_qualifiers = [lit ''filename'' \<mapsto> lit ''package.json'',
                          lit ''repo'' \<mapsto> lit ''gothinkster/angularjs-realworld-example-app'']\<rparr>)]
   \<and> quote query = Inr (lit ''angular'')"
proof (cases "search_code E g (search_request (lit ''angular''))")
  case (Inl e)
  then show ?thesis
    by (simp add: main_search_raises query_def quote_query g_def search_request_def qualifiers_def)
next
  case (Inr pl)
  obtain results stop where pl: "pl = PaginatedList results stop"
    by (cases pl)
  show ?thesis
    using Inr unfolding pl
    by (simp add: main_search_returns query_def quote_query g_def search_request_def
        qualifiers_def)
qed


subsection \<open>A version that is not a string\<close>





subsection \<open>The query argument\<close>

lemma script_calls:
  "quote term = Inr q \<Longrightarrow> calls (script term E) = [(g, search_request q)]"
  by (cases "search_code E g (search_request q)")
     (auto simp: script_def split: paginated_list.splits)

text \<open>
  C8.  The query argument of the one search call is the result of \<open>quote\<close> on the
  term, not the term itself: for every term that can be encoded, the script passes
  its encoding.  A client that encodes its query argument once more sends the
  encoding of the encoding, which differs from the single encoding exactly when
  encoding changed the term; the script does nothing against it.
\<close>

theorem query_argument_is_encoded:
  "(\<exists>q. quote query = Inr q \<and> map (arg_query \<circ> snd) (calls (main E)) = [q])
   \<and> (quote term = Inr q' \<longrightarrow>
        map (arg_query \<circ> snd) (calls (script term E)) = [q']
        \<and> (\<exists>z. quote q' = Inr z \<and> (z = q' \<longleftrightarrow> q' = term)))"
proof (intro conjI impI)
  have "quote query = Inr (lit ''angular'')"
    by (simp add: query_def quote_query)
  then show "\<exists>q. quote query = Inr q \<and> map (arg_query \<circ> snd) (calls (main E)) = [q]"
    by (simp add: main_def script_calls search_request_def)
next
  assume "quote term = Inr q'"
  then show "map (arg_query \<circ> snd) (calls (script term E)) = [q']"
    by (simp add: script_calls search_request_def)
next
  assume "quote term = Inr q'"
  then show "\<exists>z. quote q' = Inr z \<and> (z = q' \<longleftrightarrow> q' = term)"
    by (rule quote_twice)
qed

theorem query_argument_is_encoded_witness:
  "quote (lit ''a b'') = Inr (lit ''a%20b'')
   \<and> map (arg_query \<circ> snd) (calls (script (lit ''a b'') (example_env (Inr (PaginatedList [] None)))))
       = [lit ''a%20b'']
   \<and> quote (lit ''a%20b'') = Inr (lit ''a%2520b'')
   \<and> lit ''a%2520b'' \<noteq> lit ''a%20b''"
proof -
  have q: "quote (lit ''a b'') = Inr (lit ''a%20b'')" by (simp add: quote_eval)
  have z: "quote (lit ''a%20b'') = Inr (lit ''a%2520b'')" by (simp add: quote_eval)
  have n: "lit ''a%2520b'' \<noteq> lit ''a%20b''" by (simp add: lit_def)
  show ?thesis
    using q z n
      query_argument_is_encoded [of "example_env (Inr (PaginatedList [] None))"
        "lit ''a b''" "lit ''a%20b''"]
    by simp
qed

end
